theory Spec2Isabelle
  imports Complex_Main "HOL-Library.Word"
begin

section \<open>The blow-detection state machine\<close>

text \<open>
  The experience state machine of the birthday application lives in the \<open>update\<close>
  closure of the \<open>App\<close> component. The repository holds two versions of it: the one
  with a run-length counter and a cooldown (\<open>src/services/geminiService.ts\<close>, lines
  286-354) and the earlier one that fires on a single frame (\<open>src/App.tsx\<close>, lines
  176-212). Both are embedded here: React state and refs become the fields of a record
  that every tick takes and returns, \<open>Date.now()\<close> and the bytes written by
  \<open>getByteFrequencyData\<close> are the inputs of a tick.
\<close>

subsection \<open>JavaScript numbers\<close>

text \<open>
  The values of type \<open>number\<close> that the loop computes are quotients of integers, the
  results of a division by zero, and the \<open>Infinity\<close> of the duration table. A finite
  value is kept as an exact rational: the source rounds each quotient to the nearest
  double, which is monotone and exact at the integers compared with here (0, 1 and 55).
  The sign of a zero is not tracked.
\<close>

datatype jsnum = Num rat | PosInfinity | NegInfinity | NaN

fun js_gt :: "jsnum \<Rightarrow> jsnum \<Rightarrow> bool" where
  "js_gt NaN _ = False"
| "js_gt _ NaN = False"
| "js_gt (Num a) (Num b) = (b < a)"
| "js_gt (Num a) PosInfinity = False"
| "js_gt (Num a) NegInfinity = True"
| "js_gt PosInfinity PosInfinity = False"
| "js_gt PosInfinity _ = True"
| "js_gt NegInfinity _ = False"

fun js_le :: "jsnum \<Rightarrow> jsnum \<Rightarrow> bool" where
  "js_le NaN _ = False"
| "js_le _ NaN = False"
| "js_le (Num a) (Num b) = (a \<le> b)"
| "js_le (Num a) PosInfinity = True"
| "js_le (Num a) NegInfinity = False"
| "js_le NegInfinity _ = True"
| "js_le PosInfinity PosInfinity = True"
| "js_le PosInfinity _ = False"

fun js_div :: "jsnum \<Rightarrow> jsnum \<Rightarrow> jsnum" where
  "js_div NaN _ = NaN"
| "js_div _ NaN = NaN"
| "js_div (Num a) (Num b) =
     (if b = 0 then (if a = 0 then NaN else if 0 < a then PosInfinity else NegInfinity)
      else Num (a / b))"
| "js_div (Num a) _ = Num 0"
| "js_div PosInfinity (Num b) = (if b < 0 then NegInfinity else PosInfinity)"
| "js_div NegInfinity (Num b) = (if b < 0 then PosInfinity else NegInfinity)"
| "js_div _ _ = NaN"

fun Math_min :: "jsnum \<Rightarrow> jsnum \<Rightarrow> jsnum" where
  "Math_min NaN _ = NaN"
| "Math_min _ NaN = NaN"
| "Math_min NegInfinity _ = NegInfinity"
| "Math_min _ NegInfinity = NegInfinity"
| "Math_min PosInfinity y = y"
| "Math_min x PosInfinity = x"
| "Math_min (Num a) (Num b) = Num (min a b)"

text \<open>\<open>x || 0\<close> on an optional number: \<open>undefined\<close>, \<open>0\<close> and \<open>NaN\<close> are falsy.\<close>

fun or_zero :: "jsnum option \<Rightarrow> jsnum" where
  "or_zero None = Num 0"
| "or_zero (Some NaN) = Num 0"
| "or_zero (Some x) = x"

subsection \<open>Data\<close>

datatype ExperienceState =
  IDLE | LISTENING | COUNTDOWN | MORPH_CAKE | CANDLES_LIT | BLOW_OUT | GIFT_OPEN

text \<open>The table \<open>DURATIONS\<close>: a state that is not a key reads as \<open>undefined\<close>.\<close>

fun DURATIONS :: "ExperienceState \<Rightarrow> jsnum option" where
  "DURATIONS COUNTDOWN = Some (Num 3000)"
| "DURATIONS MORPH_CAKE = Some (Num 4000)"
| "DURATIONS CANDLES_LIT = Some PosInfinity"
| "DURATIONS BLOW_OUT = Some (Num 2000)"
| "DURATIONS GIFT_OPEN = Some PosInfinity"
| "DURATIONS _ = None"

text \<open>
  The state and the refs that both versions of the loop share; \<open>analyserRef\<close> records
  whether \<open>analyserRef.current\<close> is set.
\<close>

record app =
  state :: ExperienceState
  progress :: jsnum
  micActive :: bool
  analyserRef :: bool
  lastStateTimeRef :: int

text \<open>The version with hysteresis adds the run-length counter and the trigger time.\<close>

record machine = app +
  blowHitFramesRef :: int
  lastTriggerAtRef :: int

type_synonym frame = "8 word list"

subsection \<open>Signal features\<close>

text \<open>\<open>xs.reduce((a, b) => a + b, init)\<close> on a \<open>Uint8Array\<close>: the sum is a number, it does not wrap.\<close>

definition reduce_add :: "int \<Rightarrow> frame \<Rightarrow> int" where
  "reduce_add init xs = foldl (\<lambda>a b. a + uint b) init xs"

definition lowFreqBins :: nat where
  "lowFreqBins = 15"

definition blowThreshold :: jsnum where
  "blowThreshold = Num 55"

definition lowFreqSum :: "frame \<Rightarrow> jsnum" where
  "lowFreqSum dataArray =
     js_div (Num (of_int (reduce_add 0 (take lowFreqBins dataArray)))) (Num (of_nat lowFreqBins))"

definition totalAverage :: "frame \<Rightarrow> jsnum" where
  "totalAverage dataArray =
     js_div (Num (of_int (reduce_add 0 dataArray))) (Num (of_nat (length dataArray)))"

definition isHit :: "frame \<Rightarrow> bool" where
  "isHit dataArray =
     (js_gt (lowFreqSum dataArray) blowThreshold \<or> js_gt (totalAverage dataArray) blowThreshold)"

text \<open>The mean of a sequence of bins, as the specification words it.\<close>

definition mean :: "frame \<Rightarrow> rat" where
  "mean xs = of_nat (sum_list (map unat xs)) / of_nat (length xs)"

text \<open>The length of a frame: \<open>frequencyBinCount\<close> is half of \<open>fftSize = 512\<close>.\<close>

definition frequencyBinCount :: nat where
  "frequencyBinCount = 512 div 2"

subsection \<open>The tick of the version with hysteresis\<close>

definition cooldownMs :: int where
  "cooldownMs = 900"

definition requiredFrames :: int where
  "requiredFrames = 6"

text \<open>Lines 289-304: the timeout branch and the progress update.\<close>

definition timeoutBranch :: "int \<Rightarrow> machine \<Rightarrow> machine" where
  "timeoutBranch now m =
     (let elapsed = now - lastStateTimeRef m;
          duration = or_zero (DURATIONS (state m))
      in if duration \<noteq> PosInfinity \<and> js_gt (Num (of_int elapsed)) duration then
           (if state m = COUNTDOWN then m\<lparr>state := MORPH_CAKE\<rparr>
            else if state m = MORPH_CAKE then m\<lparr>state := CANDLES_LIT\<rparr>
            else if state m = BLOW_OUT then m\<lparr>state := GIFT_OPEN\<rparr>
            else m)
           \<lparr>lastStateTimeRef := now, progress := Num 0, blowHitFramesRef := 0\<rparr>
         else if duration \<noteq> PosInfinity then
           m\<lparr>progress := Math_min (js_div (Num (of_int elapsed)) duration) (Num 1)\<rparr>
         else m)"

text \<open>Lines 320-325: the run-length counter.\<close>

definition hysteresis :: "frame \<Rightarrow> machine \<Rightarrow> machine" where
  "hysteresis dataArray m =
     (if isHit dataArray then m\<lparr>blowHitFramesRef := blowHitFramesRef m + 1\<rparr>
      else m\<lparr>blowHitFramesRef := max 0 (blowHitFramesRef m - 1)\<rparr>)"

text \<open>
  Lines 327-346: the trigger gate. \<open>st\<close> is the \<open>state\<close> the closure was created
  with, that is the state before the tick.
\<close>

definition triggerGate :: "ExperienceState \<Rightarrow> int \<Rightarrow> machine \<Rightarrow> machine" where
  "triggerGate st now m =
     (let canTrigger = (now - lastTriggerAtRef m > cooldownMs);
          shouldTrigger = (blowHitFramesRef m \<ge> requiredFrames)
      in if canTrigger \<and> shouldTrigger then
           (if st = LISTENING then
              m\<lparr>state := COUNTDOWN, lastStateTimeRef := now, lastTriggerAtRef := now,
                blowHitFramesRef := 0\<rparr>
            else if st = CANDLES_LIT then
              m\<lparr>state := BLOW_OUT, lastStateTimeRef := now, lastTriggerAtRef := now,
                blowHitFramesRef := 0\<rparr>
            else m)
         else m)"

text \<open>One run of \<open>update\<close> at time \<open>now\<close>, with \<open>dataArray\<close> the frame the analyser delivers.\<close>

definition update :: "int \<Rightarrow> frame \<Rightarrow> machine \<Rightarrow> machine" where
  "update now dataArray m =
     (let m1 = timeoutBranch now m
      in if analyserRef m \<and> micActive m then triggerGate (state m) now (hysteresis dataArray m1)
         else m1)"

text \<open>The animation-frame loop, over a finite sequence of ticks.\<close>

fun run :: "(int \<times> frame) list \<Rightarrow> machine \<Rightarrow> machine" where
  "run [] m = m"
| "run ((now, dataArray) # ticks) m = run ticks (update now dataArray m)"

text \<open>
  \<open>initMic\<close>: \<open>granted\<close> tells whether the \<open>try\<close> block ran to its end; anything
  thrown in it (the capture refused, no audio context) is caught before
  \<open>analyserRef.current\<close> is assigned.
\<close>

definition initMic :: "bool \<Rightarrow> machine \<Rightarrow> machine" where
  "initMic granted m =
     (if granted then m\<lparr>analyserRef := True, micActive := True, state := LISTENING\<rparr>
      else m\<lparr>micActive := False, state := LISTENING\<rparr>)"

text \<open>
  The run-length at the moment the gate is evaluated, tick by tick: the value that
  \<open>shouldTrigger\<close> compares with \<open>requiredFrames\<close>.
\<close>

fun gateCounts :: "(int \<times> frame) list \<Rightarrow> machine \<Rightarrow> int list" where
  "gateCounts [] m = []"
| "gateCounts ((now, dataArray) # ticks) m =
     blowHitFramesRef (hysteresis dataArray (timeoutBranch now m))
       # gateCounts ticks (update now dataArray m)"

subsection \<open>The tick of the version in \<open>src/App.tsx\<close>\<close>

datatype error = TypeError

text \<open>\<open>xs.reduce((a, b) => a + b)\<close> with no initial value throws on an empty array.\<close>

definition reduce_add1 :: "frame \<Rightarrow> error + int" where
  "reduce_add1 xs =
     (case xs of [] \<Rightarrow> Inl TypeError
      | x # rest \<Rightarrow> Inr (foldl (\<lambda>a b. a + uint b) (uint x) rest))"

definition timeoutBranch_App :: "int \<Rightarrow> app \<Rightarrow> app" where
  "timeoutBranch_App now m =
     (let elapsed = now - lastStateTimeRef m;
          duration = or_zero (DURATIONS (state m))
      in if duration \<noteq> PosInfinity \<and> js_gt (Num (of_int elapsed)) duration then
           (if state m = COUNTDOWN then m\<lparr>state := MORPH_CAKE\<rparr>
            else if state m = MORPH_CAKE then m\<lparr>state := CANDLES_LIT\<rparr>
            else if state m = BLOW_OUT then m\<lparr>state := GIFT_OPEN\<rparr>
            else m)
           \<lparr>lastStateTimeRef := now, progress := Num 0\<rparr>
         else if duration \<noteq> PosInfinity then
           m\<lparr>progress := Math_min (js_div (Num (of_int elapsed)) duration) (Num 1)\<rparr>
         else m)"

definition update_App :: "int \<Rightarrow> frame \<Rightarrow> app \<Rightarrow> error + app" where
  "update_App now dataArray m =
     (let m1 = timeoutBranch_App now m
      in if analyserRef m \<and> micActive m then
           (case reduce_add1 dataArray of
              Inl e \<Rightarrow> Inl e
            | Inr acc \<Rightarrow>
                (let totalAverage_App = js_div (Num (of_int acc)) (Num (of_nat (length dataArray)))
                 in if js_gt (lowFreqSum dataArray) blowThreshold
                       \<or> js_gt totalAverage_App blowThreshold then
                      (if state m = LISTENING then
                         Inr (m1\<lparr>state := COUNTDOWN, lastStateTimeRef := now\<rparr>)
                       else if state m = CANDLES_LIT then
                         Inr (m1\<lparr>state := BLOW_OUT, lastStateTimeRef := now\<rparr>)
                       else Inr m1)
                    else Inr m1))
         else Inr m1)"

subsection \<open>Traces and scenarios\<close>

text \<open>Ticks whose clock readings grow strictly, starting after \<open>t\<close>.\<close>

fun increasing :: "int \<Rightarrow> (int \<times> frame) list \<Rightarrow> bool" where
  "increasing t [] = True"
| "increasing t ((now, dataArray) # ticks) = (t < now \<and> increasing now ticks)"

text \<open>A frame with every bin at full scale, and a silent frame.\<close>

definition hitFrame :: frame where
  "hitFrame = replicate 256 255"

definition quietFrame :: frame where
  "quietFrame = replicate 256 0"

text \<open>Eight frames of a sustained blow, 16 ms apart.\<close>

definition sustainedBlow :: "(int \<times> frame) list" where
  "sustainedBlow = map (\<lambda>now. (now, hitFrame)) [1000, 1016, 1032, 1048, 1064, 1080, 1096, 1112]"

text \<open>Three hits, one dropped frame, four hits.\<close>

definition droppedFrame :: "(int \<times> frame) list" where
  "droppedFrame =
     [(1000, hitFrame), (1016, hitFrame), (1032, hitFrame), (1048, quietFrame),
      (1064, hitFrame), (1080, hitFrame), (1096, hitFrame), (1112, hitFrame)]"

text \<open>Machines with a working microphone, entered at time 0 and never triggered before.\<close>

definition listening0 :: machine where
  "listening0 = \<lparr>state = LISTENING, progress = Num 0, micActive = True, analyserRef = True,
       lastStateTimeRef = 0, blowHitFramesRef = 0, lastTriggerAtRef = 0\<rparr>"

definition countdown0 :: machine where
  "countdown0 = \<lparr>state = COUNTDOWN, progress = Num 0, micActive = True, analyserRef = True,
       lastStateTimeRef = 0, blowHitFramesRef = 0, lastTriggerAtRef = 0\<rparr>"

definition candlesLit0 :: machine where
  "candlesLit0 = \<lparr>state = CANDLES_LIT, progress = Num 0, micActive = True, analyserRef = True,
       lastStateTimeRef = 0, blowHitFramesRef = 0, lastTriggerAtRef = 0\<rparr>"

text \<open>\<open>CANDLES_LIT\<close> with a progress of one half and a run-length of 5.\<close>

definition candlesHalf :: machine where
  "candlesHalf = \<lparr>state = CANDLES_LIT, progress = Num (1 / 2), micActive = True,
       analyserRef = True, lastStateTimeRef = 0, blowHitFramesRef = 5, lastTriggerAtRef = 0\<rparr>"

text \<open>The state of the version in \<open>src/App.tsx\<close>, listening with a working microphone.\<close>

definition appListening0 :: app where
  "appListening0 = \<lparr>state = LISTENING, progress = Num 0, micActive = True, analyserRef = True,
       lastStateTimeRef = 0\<rparr>"

section \<open>The hit test\<close>

lemma reduce_add_sum: "reduce_add init xs = init + int (sum_list (map unat xs))"
proof (induction xs arbitrary: init)
  case Nil
  show ?case by (simp add: reduce_add_def)
next
  case (Cons x xs)
  have "reduce_add init (x # xs) = reduce_add (init + uint x) xs"
    by (simp add: reduce_add_def)
  also have "\<dots> = init + uint x + int (sum_list (map unat xs))"
    by (rule Cons.IH)
  also have "uint x = int (unat x)"
    by (rule uint_nat)
  finally show ?case by simp
qed

lemma lowFreqSum_mean:
  assumes "lowFreqBins \<le> length dataArray"
  shows "lowFreqSum dataArray = Num (mean (take lowFreqBins dataArray))"
  using assms by (simp add: lowFreqSum_def mean_def reduce_add_sum lowFreqBins_def)

lemma totalAverage_mean:
  assumes "dataArray \<noteq> []"
  shows "totalAverage dataArray = Num (mean dataArray)"
  using assms by (simp add: totalAverage_def mean_def reduce_add_sum)

text \<open>
  C5. A frame is a hit if and only if the mean of its first 15 bins exceeds 55 or the
  mean of all its bins exceeds 55. Each bin is a byte, so an amplitude in 0..255. The
  frame has at least the 15 low-frequency bins: the analyser delivers
  \<open>frequencyBinCount = 256\<close> of them.
\<close>

theorem isHit_iff_means:
  assumes "15 \<le> length dataArray"
  shows "isHit dataArray \<longleftrightarrow> (55 < mean (take 15 dataArray) \<or> 55 < mean dataArray)"
proof -
  from assms have ne: "dataArray \<noteq> []" by auto
  from assms have "lowFreqBins \<le> length dataArray" by (simp add: lowFreqBins_def)
  then have "lowFreqSum dataArray = Num (mean (take 15 dataArray))"
    using lowFreqSum_mean by (simp add: lowFreqBins_def)
  then show ?thesis
    by (simp add: isHit_def totalAverage_mean [OF ne] blowThreshold_def)
qed

text \<open>
  A frame of 256 bins whose 15 low bins are at 56 and whose other bins are silent: the
  low-frequency mean is 56, the mean of all bins is below 4, and the frame is a hit.
\<close>

theorem isHit_iff_means_witness:
  "15 \<le> length (replicate 15 56 @ replicate 241 (0 :: 8 word))
   \<and> length (replicate 15 56 @ replicate 241 (0 :: 8 word)) = frequencyBinCount
   \<and> isHit (replicate 15 56 @ replicate 241 0)
   \<and> 55 < mean (take 15 (replicate 15 56 @ replicate 241 0))
   \<and> \<not> 55 < mean (replicate 15 56 @ replicate 241 0)"
  using isHit_iff_means [of "replicate 15 56 @ replicate 241 0"]
  by (simp add: mean_def sum_list_replicate frequencyBinCount_def)

section \<open>The steps of a tick\<close>

lemma hysteresis_fields [simp]:
  "state (hysteresis f m) = state m"
  "progress (hysteresis f m) = progress m"
  "lastStateTimeRef (hysteresis f m) = lastStateTimeRef m"
  "lastTriggerAtRef (hysteresis f m) = lastTriggerAtRef m"
  "micActive (hysteresis f m) = micActive m"
  "analyserRef (hysteresis f m) = analyserRef m"
  by (simp_all add: hysteresis_def)

lemma blowHitFramesRef_hysteresis:
  "blowHitFramesRef (hysteresis f m) =
     (if isHit f then blowHitFramesRef m + 1 else max 0 (blowHitFramesRef m - 1))"
  by (simp add: hysteresis_def)

lemma timeoutBranch_flags [simp]:
  "micActive (timeoutBranch now m) = micActive m"
  "analyserRef (timeoutBranch now m) = analyserRef m"
  by (simp_all add: timeoutBranch_def Let_def)

lemma state_timeoutBranch:
  "state (timeoutBranch now m) =
    (if state m = COUNTDOWN \<and> now - lastStateTimeRef m > 3000 then MORPH_CAKE
     else if state m = MORPH_CAKE \<and> now - lastStateTimeRef m > 4000 then CANDLES_LIT
     else if state m = BLOW_OUT \<and> now - lastStateTimeRef m > 2000 then GIFT_OPEN
     else state m)"
  by (cases "state m") (auto simp: timeoutBranch_def Let_def)

lemma timeoutBranch_untimed:
  assumes "state m = CANDLES_LIT \<or> state m = GIFT_OPEN"
  shows "timeoutBranch now m = m"
  using assms by (auto simp: timeoutBranch_def)

lemma timeoutBranch_zero:
  assumes "state m = IDLE \<or> state m = LISTENING" "now - lastStateTimeRef m > 0"
  shows "timeoutBranch now m
       = m\<lparr>lastStateTimeRef := now, progress := Num 0, blowHitFramesRef := 0\<rparr>"
  using assms by (auto simp: timeoutBranch_def Let_def)

lemma triggerGate_other:
  assumes "st \<noteq> LISTENING" "st \<noteq> CANDLES_LIT"
  shows "triggerGate st now m = m"
  using assms by (simp add: triggerGate_def Let_def)

lemma triggerGate_fire:
  assumes "st = LISTENING \<or> st = CANDLES_LIT" "state (triggerGate st now m) \<noteq> state m"
  shows "lastStateTimeRef (triggerGate st now m) = now
       \<and> lastTriggerAtRef (triggerGate st now m) = now
       \<and> blowHitFramesRef (triggerGate st now m) = 0
       \<and> progress (triggerGate st now m) = progress m"
  using assms by (auto simp: triggerGate_def Let_def split: if_splits)

lemma state_update_other:
  assumes "state m \<noteq> LISTENING" "state m \<noteq> CANDLES_LIT"
  shows "state (update now f m) = state (timeoutBranch now m)"
  using assms by (simp add: update_def Let_def triggerGate_other)

lemma update_no_mic:
  assumes "\<not> micActive m"
  shows "update now f m = timeoutBranch now m"
  using assms by (simp add: update_def)

lemma run_GIFT_OPEN:
  assumes "state m = GIFT_OPEN"
  shows "state (run ticks m) = GIFT_OPEN"
  using assms
proof (induction ticks arbitrary: m)
  case Nil
  then show ?case by simp
next
  case (Cons t ticks)
  obtain now f where t: "t = (now, f)" by (cases t)
  from Cons.prems have "state (update now f m) = GIFT_OPEN"
    by (simp add: state_update_other timeoutBranch_untimed)
  then show ?case unfolding t by (simp add: Cons.IH)
qed

lemma run_no_mic:
  assumes "\<not> micActive m"
    and "state m = LISTENING \<or> state m = CANDLES_LIT \<or> state m = GIFT_OPEN"
  shows "state (run ticks m) = state m \<and> \<not> micActive (run ticks m)"
  using assms
proof (induction ticks arbitrary: m)
  case Nil
  then show ?case by simp
next
  case (Cons t ticks)
  obtain now f where t: "t = (now, f)" by (cases t)
  let ?m = "update now f m"
  have u: "?m = timeoutBranch now m" using Cons.prems(1) by (rule update_no_mic)
  have st: "state ?m = state m" using Cons.prems(2) by (auto simp: u state_timeoutBranch)
  have mic: "\<not> micActive ?m" using Cons.prems(1) by (simp add: u)
  from Cons.IH [OF mic] st Cons.prems(2) show ?case unfolding t by simp
qed

lemma isHit_hitFrame: "isHit hitFrame"
  by (simp add: hitFrame_def isHit_def lowFreqSum_def totalAverage_def reduce_add_sum
      lowFreqBins_def blowThreshold_def sum_list_replicate)

lemma not_isHit_quietFrame: "\<not> isHit quietFrame"
  by (simp add: quietFrame_def isHit_def lowFreqSum_def totalAverage_def reduce_add_sum
      lowFreqBins_def blowThreshold_def sum_list_replicate)

section \<open>Listening: the trigger and the zero duration\<close>

lemma update_listening:
  assumes "state m = LISTENING" "lastStateTimeRef m < now"
  shows "update now f m =
    (if analyserRef m \<and> micActive m
     then hysteresis f (m\<lparr>lastStateTimeRef := now, progress := Num 0, blowHitFramesRef := 0\<rparr>)
     else m\<lparr>lastStateTimeRef := now, progress := Num 0, blowHitFramesRef := 0\<rparr>)"
proof -
  have t: "timeoutBranch now m
      = m\<lparr>lastStateTimeRef := now, progress := Num 0, blowHitFramesRef := 0\<rparr>"
    using assms by (simp add: timeoutBranch_zero)
  have "blowHitFramesRef (hysteresis f (timeoutBranch now m)) \<le> 1"
    by (simp add: t blowHitFramesRef_hysteresis)
  then have "triggerGate (state m) now (hysteresis f (timeoutBranch now m))
      = hysteresis f (timeoutBranch now m)"
    by (simp add: triggerGate_def Let_def requiredFrames_def)
  then show ?thesis
    by (simp add: update_def Let_def t)
qed

text \<open>
  While the clock advances from tick to tick, no sequence of frames takes the version
  with hysteresis out of \<open>LISTENING\<close>.
\<close>

lemma listening_stuck:
  assumes "state m = LISTENING" "increasing (lastStateTimeRef m) ticks"
  shows "state (run ticks m) = LISTENING"
  using assms
proof (induction ticks arbitrary: m)
  case Nil
  then show ?case by simp
next
  case (Cons t ticks)
  obtain now f where t: "t = (now, f)" by (cases t)
  from Cons.prems have lt: "lastStateTimeRef m < now" and inc: "increasing now ticks"
    by (simp_all add: t)
  let ?m = "update now f m"
  have u: "state ?m = LISTENING \<and> lastStateTimeRef ?m = now"
    using Cons.prems(1) by (simp add: update_listening [OF Cons.prems(1) lt] hysteresis_def)
  with inc have "state (run ticks ?m) = LISTENING"
    by (intro Cons.IH) simp_all
  then show ?case by (simp add: t)
qed

text \<open>
  C1. The claim: in \<open>LISTENING\<close> with an active microphone, six consecutive hit frames
  followed by more hits cause exactly one transition to \<open>COUNTDOWN\<close>, within the first
  six frames, and no trigger in the 900 ms after it. The code, on eight hit frames 16 ms
  apart: the run-length at the gate is 1 at every tick, since the timeout branch has
  set it to 0 just before, and the machine is still in \<open>LISTENING\<close> after the sixth
  frame and after the eighth.
\<close>

theorem sustained_blow_no_trigger:
  "state (run (take 6 sustainedBlow) listening0) = LISTENING
   \<and> state (run sustainedBlow listening0) = LISTENING
   \<and> gateCounts sustainedBlow listening0 = [1, 1, 1, 1, 1, 1, 1, 1]
   \<and> list_all (\<lambda>t. isHit (snd t)) sustainedBlow"
  by (simp add: sustainedBlow_def listening0_def update_listening hysteresis_def
      isHit_hitFrame timeoutBranch_zero)

text \<open>
  C9. In the version with hysteresis, a state that is not a key of the duration table
  (\<open>IDLE\<close>, \<open>LISTENING\<close>) has the duration \<open>DURATIONS[state] || 0 = 0\<close>. On a tick
  with a positive elapsed time the timeout branch runs: it leaves the state as it is and
  sets the elapsed-time origin to now, the progress to 0 and the run-length to 0. So the
  run-length is at most 1 when the trigger gate is evaluated, the gate does not fire,
  and after the tick the state is the same, the origin is now, the progress is 0 and the
  run-length is 1 if the microphone is active and the frame is a hit, and 0 otherwise.
\<close>

theorem zero_duration_resets:
  assumes "state m = IDLE \<or> state m = LISTENING"
  shows "DURATIONS (state m) = None
    \<and> or_zero (DURATIONS (state m)) = Num 0
    \<and> (0 < now - lastStateTimeRef m \<longrightarrow>
         timeoutBranch now m
           = m\<lparr>lastStateTimeRef := now, progress := Num 0, blowHitFramesRef := 0\<rparr>
         \<and> state (timeoutBranch now m) = state m
         \<and> blowHitFramesRef (hysteresis f (timeoutBranch now m)) \<le> 1
         \<and> state (update now f m) = state m
         \<and> lastStateTimeRef (update now f m) = now
         \<and> progress (update now f m) = Num 0
         \<and> lastTriggerAtRef (update now f m) = lastTriggerAtRef m
         \<and> blowHitFramesRef (update now f m)
             = (if analyserRef m \<and> micActive m \<and> isHit f then 1 else 0)
         \<and> update now f m
             = (if analyserRef m \<and> micActive m then
                  hysteresis f
                    (m\<lparr>lastStateTimeRef := now, progress := Num 0, blowHitFramesRef := 0\<rparr>)
                else m\<lparr>lastStateTimeRef := now, progress := Num 0, blowHitFramesRef := 0\<rparr>))"
proof -
  have d: "DURATIONS (state m) = None" "or_zero (DURATIONS (state m)) = Num 0"
    using assms by auto
  have r: "timeoutBranch now m
        = m\<lparr>lastStateTimeRef := now, progress := Num 0, blowHitFramesRef := 0\<rparr>
      \<and> state (timeoutBranch now m) = state m
      \<and> blowHitFramesRef (hysteresis f (timeoutBranch now m)) \<le> 1
      \<and> state (update now f m) = state m
      \<and> lastStateTimeRef (update now f m) = now
      \<and> progress (update now f m) = Num 0
      \<and> lastTriggerAtRef (update now f m) = lastTriggerAtRef m
      \<and> blowHitFramesRef (update now f m)
          = (if analyserRef m \<and> micActive m \<and> isHit f then 1 else 0)
      \<and> update now f m
          = (if analyserRef m \<and> micActive m then
               hysteresis f
                 (m\<lparr>lastStateTimeRef := now, progress := Num 0, blowHitFramesRef := 0\<rparr>)
             else m\<lparr>lastStateTimeRef := now, progress := Num 0, blowHitFramesRef := 0\<rparr>)"
    if e: "0 < now - lastStateTimeRef m"
  proof -
    let ?r = "m\<lparr>lastStateTimeRef := now, progress := Num 0, blowHitFramesRef := 0\<rparr>"
    have t: "timeoutBranch now m = ?r"
      using assms e by (rule timeoutBranch_zero)
    have s: "state (timeoutBranch now m) = state m"
      by (simp add: t)
    have c: "blowHitFramesRef (hysteresis f (timeoutBranch now m)) \<le> 1"
      by (simp add: t blowHitFramesRef_hysteresis)
    then have g: "triggerGate (state m) now (hysteresis f ?r) = hysteresis f ?r"
      unfolding t by (simp add: triggerGate_def Let_def requiredFrames_def)
    have u: "update now f m = (if analyserRef m \<and> micActive m then hysteresis f ?r else ?r)"
      by (simp add: update_def Let_def t g)
    have 1: "state (update now f m) = state m"
      and 2: "lastStateTimeRef (update now f m) = now"
      and 3: "progress (update now f m) = Num 0"
      and 4: "lastTriggerAtRef (update now f m) = lastTriggerAtRef m"
      and 5: "blowHitFramesRef (update now f m)
          = (if analyserRef m \<and> micActive m \<and> isHit f then 1 else 0)"
      by (simp_all add: u blowHitFramesRef_hysteresis)
    from t s c 1 2 3 4 5 u show ?thesis by blast
  qed
  from d r show ?thesis by blast
qed

text \<open>A hit frame in \<open>LISTENING\<close>, one second after the state was entered.\<close>

theorem zero_duration_resets_witness:
  "(state listening0 = IDLE \<or> state listening0 = LISTENING)
   \<and> 0 < 1000 - lastStateTimeRef listening0
   \<and> or_zero (DURATIONS (state listening0)) = Num 0
   \<and> timeoutBranch 1000 listening0
       = listening0\<lparr>lastStateTimeRef := 1000, progress := Num 0, blowHitFramesRef := 0\<rparr>
   \<and> blowHitFramesRef (hysteresis hitFrame (timeoutBranch 1000 listening0)) \<le> 1
   \<and> state (update 1000 hitFrame listening0) = state listening0
   \<and> lastStateTimeRef (update 1000 hitFrame listening0) = 1000
   \<and> progress (update 1000 hitFrame listening0) = Num 0
   \<and> blowHitFramesRef (update 1000 hitFrame listening0) = 1"
proof -
  have h: "state listening0 = IDLE \<or> state listening0 = LISTENING"
    by (simp add: listening0_def)
  have e: "0 < 1000 - lastStateTimeRef listening0"
    by (simp add: listening0_def)
  have a: "analyserRef listening0 \<and> micActive listening0 \<and> isHit hitFrame"
    by (simp add: listening0_def isHit_hitFrame)
  note th = zero_duration_resets [OF h, of 1000 hitFrame]
  from th e have "blowHitFramesRef (update 1000 hitFrame listening0)
      = (if analyserRef listening0 \<and> micActive listening0 \<and> isHit hitFrame then 1 else 0)"
    by blast
  with a have c: "blowHitFramesRef (update 1000 hitFrame listening0) = 1"
    by simp
  from th h e c show ?thesis
    by blast
qed

section \<open>Timed states\<close>

text \<open>The states with a finite, positive entry in the table.\<close>

lemma timed_cases:
  assumes "DURATIONS (state m) = Some (Num (of_int D))"
  shows "(state m = COUNTDOWN \<and> D = 3000) \<or> (state m = MORPH_CAKE \<and> D = 4000)
       \<or> (state m = BLOW_OUT \<and> D = 2000)"
proof (cases "state m")
  case COUNTDOWN
  with assms have "(of_int D :: rat) = of_int 3000" by simp
  then have "D = 3000" by (simp only: of_int_eq_iff)
  with COUNTDOWN show ?thesis by simp
next
  case MORPH_CAKE
  with assms have "(of_int D :: rat) = of_int 4000" by simp
  then have "D = 4000" by (simp only: of_int_eq_iff)
  with MORPH_CAKE show ?thesis by simp
next
  case BLOW_OUT
  with assms have "(of_int D :: rat) = of_int 2000" by simp
  then have "D = 2000" by (simp only: of_int_eq_iff)
  with BLOW_OUT show ?thesis by simp
qed (use assms in simp_all)

lemma update_timed:
  assumes "DURATIONS (state m) = Some (Num (of_int D))"
  shows "update now f m =
     (if analyserRef m \<and> micActive m then hysteresis f (timeoutBranch now m)
      else timeoutBranch now m)"
  using timed_cases [OF assms] by (auto simp: update_def Let_def triggerGate_other)

lemma timeoutBranch_timed_early:
  assumes "DURATIONS (state m) = Some (Num (of_int D))" "now - lastStateTimeRef m \<le> D"
  shows "timeoutBranch now m
       = m\<lparr>progress := Num (min (of_int (now - lastStateTimeRef m) / of_int D) 1)\<rparr>"
  using timed_cases [OF assms(1)] assms(2) by (auto simp: timeoutBranch_def Let_def)

lemma timeoutBranch_timed_late:
  assumes "DURATIONS (state m) = Some (Num (of_int D))" "D < now - lastStateTimeRef m"
  shows "state (timeoutBranch now m) \<noteq> state m \<and> progress (timeoutBranch now m) = Num 0
    \<and> lastStateTimeRef (timeoutBranch now m) = now
    \<and> blowHitFramesRef (timeoutBranch now m) = 0"
  using timed_cases [OF assms(1)] assms(2) by (auto simp: timeoutBranch_def Let_def)

lemma update_timed_early:
  assumes "DURATIONS (state m) = Some (Num (of_int D))" "now - lastStateTimeRef m \<le> D"
  shows "state (update now f m) = state m"
    and "lastStateTimeRef (update now f m) = lastStateTimeRef m"
    and "progress (update now f m)
       = Num (min (of_int (now - lastStateTimeRef m) / of_int D) 1)"
  by (simp_all add: update_timed [OF assms(1)] timeoutBranch_timed_early [OF assms])

lemma update_timed_late:
  assumes "DURATIONS (state m) = Some (Num (of_int D))" "D < now - lastStateTimeRef m"
  shows "state (update now f m) \<noteq> state m"
    and "progress (update now f m) = Num 0"
  using timeoutBranch_timed_late [OF assms]
  by (simp_all add: update_timed [OF assms(1)])

text \<open>
  C3, as amended. In a state with a finite duration \<open>D\<close> in the table (\<open>COUNTDOWN\<close>,
  \<open>MORPH_CAKE\<close>, \<open>BLOW_OUT\<close>), a tick with an elapsed time of at most \<open>D\<close> keeps the
  state and sets the progress to \<open>min(elapsed/D, 1)\<close>, which is \<open>elapsed/D\<close>; from one
  such tick to a later one the progress does not decrease; the progress after a tick is
  exactly 1 if and only if the elapsed time is exactly \<open>D\<close>; and a tick with an
  elapsed time above \<open>D\<close> changes the state and sets the progress to 0.
\<close>

theorem progress_in_timed_state:
  assumes "DURATIONS (state m) = Some (Num (of_int D))"
  shows "(now - lastStateTimeRef m \<le> D \<longrightarrow>
            state (update now f m) = state m
            \<and> progress (update now f m)
                = Math_min (js_div (Num (of_int (now - lastStateTimeRef m))) (Num (of_int D))) (Num 1)
            \<and> progress (update now f m) = Num (of_int (now - lastStateTimeRef m) / of_int D))
       \<and> (now \<le> now' \<and> now' - lastStateTimeRef m \<le> D \<longrightarrow>
            js_le (progress (update now f m)) (progress (update now' f' (update now f m))))
       \<and> (progress (update now f m) = Num 1 \<longleftrightarrow> now - lastStateTimeRef m = D)
       \<and> (D < now - lastStateTimeRef m \<longrightarrow>
            state (update now f m) \<noteq> state m \<and> progress (update now f m) = Num 0)"
proof -
  from timed_cases [OF assms] have D: "0 < D" by auto
  have early: "state (update now f m) = state m
      \<and> progress (update now f m)
          = Math_min (js_div (Num (of_int (now - lastStateTimeRef m))) (Num (of_int D))) (Num 1)
      \<and> progress (update now f m) = Num (of_int (now - lastStateTimeRef m) / of_int D)"
    if "now - lastStateTimeRef m \<le> D"
    using update_timed_early [OF assms that] D that by (simp add: min_def)
  have mono: "js_le (progress (update now f m)) (progress (update now' f' (update now f m)))"
    if h: "now \<le> now'" "now' - lastStateTimeRef m \<le> D"
  proof -
    from h have e: "now - lastStateTimeRef m \<le> D" by simp
    let ?m = "update now f m"
    note a = update_timed_early [OF assms e, of f]
    have d': "DURATIONS (state ?m) = Some (Num (of_int D))" using assms a(1) by simp
    have e': "now' - lastStateTimeRef ?m \<le> D" using h a(2) by simp
    note b = update_timed_early [OF d' e', of f']
    have "min ((of_int now - of_int (lastStateTimeRef m)) / of_int D) 1
        \<le> min ((of_int now' - of_int (lastStateTimeRef m)) / of_int D) (1 :: rat)"
      using D h(1) by (intro min.mono divide_right_mono) simp_all
    then show ?thesis
      using a(3) b(3) a(2) by simp
  qed
  have late: "state (update now f m) \<noteq> state m \<and> progress (update now f m) = Num 0"
    if "D < now - lastStateTimeRef m"
    using update_timed_late [OF assms that] by simp
  have one: "progress (update now f m) = Num 1 \<longleftrightarrow> now - lastStateTimeRef m = D"
  proof (cases "now - lastStateTimeRef m \<le> D")
    case True
    define e where "e = now - lastStateTimeRef m"
    from early [OF True] have p: "progress (update now f m) = Num (of_int e / of_int D)"
      unfolding e_def by blast
    have "progress (update now f m) = Num 1 \<longleftrightarrow> e = D"
      unfolding p using D by auto
    then show ?thesis by (simp only: e_def)
  next
    case False
    then have "D < now - lastStateTimeRef m" by simp
    from late [OF this] False show ?thesis by simp
  qed
  from early mono one late show ?thesis by blast
qed

text \<open>
  \<open>COUNTDOWN\<close> entered at time 0: half of the progress at 1500 ms, exactly 1 at
  3000 ms, and \<open>MORPH_CAKE\<close> with a progress of 0 at 3001 ms.
\<close>

theorem progress_in_timed_state_witness:
  "DURATIONS (state countdown0) = Some (Num (of_int 3000))
   \<and> progress (update 1500 quietFrame countdown0) = Num (1 / 2)
   \<and> js_le (progress (update 1500 quietFrame countdown0))
        (progress (update 3000 quietFrame (update 1500 quietFrame countdown0)))
   \<and> progress (update 3000 quietFrame countdown0) = Num 1
   \<and> state (update 3001 quietFrame countdown0) = MORPH_CAKE
   \<and> progress (update 3001 quietFrame countdown0) = Num 0"
proof -
  have d: "DURATIONS (state countdown0) = Some (Num (of_int 3000))"
    by (simp add: countdown0_def)
  have l: "lastStateTimeRef countdown0 = 0" "state countdown0 = COUNTDOWN"
    by (simp_all add: countdown0_def)
  note th = progress_in_timed_state [OF d, of 1500 quietFrame 3000 quietFrame]
  from th have a: "progress (update 1500 quietFrame countdown0) = Num (1 / 2)"
    by (simp add: l)
  have b: "js_le (progress (update 1500 quietFrame countdown0))
        (progress (update 3000 quietFrame (update 1500 quietFrame countdown0)))"
    by (rule th [THEN conjunct2, THEN conjunct1, THEN mp]) (simp add: l)
  from progress_in_timed_state [OF d, of 3000 quietFrame 3000 quietFrame]
  have c: "progress (update 3000 quietFrame countdown0) = Num 1"
    by (simp add: l)
  from progress_in_timed_state [OF d, of 3001 quietFrame 3001 quietFrame]
  have e: "progress (update 3001 quietFrame countdown0) = Num 0"
    by (simp add: l)
  have "state (update 3001 quietFrame countdown0) = MORPH_CAKE"
    by (simp add: state_update_other state_timeoutBranch l)
  with d a b c e show ?thesis by simp
qed

text \<open>
  The claim as stated fails in \<open>COUNTDOWN\<close> entered at time 0 with ticks at 2990 ms and
  3010 ms: the progress is 299/300 after the first, the second has an elapsed time
  above the duration and leaves the machine in \<open>MORPH_CAKE\<close> with a progress of 0, where
  \<open>min(elapsed/D, 1)\<close> is 1. The progress is never 1.
\<close>

theorem progress_skips_one:
  "state (update 2990 quietFrame countdown0) = COUNTDOWN
   \<and> progress (update 2990 quietFrame countdown0) = Num (299 / 300)
   \<and> state (update 3010 quietFrame (update 2990 quietFrame countdown0)) = MORPH_CAKE
   \<and> progress (update 3010 quietFrame (update 2990 quietFrame countdown0)) = Num 0
   \<and> Math_min (js_div (Num 3010) (Num 3000)) (Num 1) = Num 1"
  by (simp add: countdown0_def update_def Let_def timeoutBranch_def triggerGate_def
      hysteresis_def not_isHit_quietFrame)

text \<open>
  C4. The timed states advance in the fixed sequence with the fixed durations: a tick
  takes \<open>COUNTDOWN\<close> to \<open>MORPH_CAKE\<close> exactly when the elapsed time exceeds 3000 ms,
  \<open>MORPH_CAKE\<close> to \<open>CANDLES_LIT\<close> when it exceeds 4000 ms, \<open>BLOW_OUT\<close> to \<open>GIFT_OPEN\<close>
  when it exceeds 2000 ms. \<open>CANDLES_LIT\<close> and \<open>GIFT_OPEN\<close> have the duration
  \<open>Infinity\<close>: the timeout branch leaves the machine as it is at every time, and with
  no microphone no sequence of ticks leaves the state.
\<close>

theorem timed_states_advance:
  "(state m = COUNTDOWN \<longrightarrow>
      DURATIONS (state m) = Some (Num 3000)
      \<and> state (update now f m)
          = (if now - lastStateTimeRef m > 3000 then MORPH_CAKE else COUNTDOWN))
   \<and> (state m = MORPH_CAKE \<longrightarrow>
      DURATIONS (state m) = Some (Num 4000)
      \<and> state (update now f m)
          = (if now - lastStateTimeRef m > 4000 then CANDLES_LIT else MORPH_CAKE))
   \<and> (state m = BLOW_OUT \<longrightarrow>
      DURATIONS (state m) = Some (Num 2000)
      \<and> state (update now f m)
          = (if now - lastStateTimeRef m > 2000 then GIFT_OPEN else BLOW_OUT))
   \<and> (state m = CANDLES_LIT \<or> state m = GIFT_OPEN \<longrightarrow>
      or_zero (DURATIONS (state m)) = PosInfinity
      \<and> timeoutBranch now m = m
      \<and> (\<not> micActive m \<longrightarrow> state (run ticks m) = state m))"
  by (auto simp: state_update_other state_timeoutBranch timeoutBranch_untimed run_no_mic)

text \<open>
  Each timed state entered at time 0, one millisecond after and at its duration; the
  two untimed states after ten minutes, the microphone off.
\<close>

theorem timed_states_advance_witness:
  "state (update 3001 hitFrame countdown0) = MORPH_CAKE
   \<and> state (update 3000 hitFrame countdown0) = COUNTDOWN
   \<and> state (update 4001 hitFrame (countdown0\<lparr>state := MORPH_CAKE\<rparr>)) = CANDLES_LIT
   \<and> state (update 4000 hitFrame (countdown0\<lparr>state := MORPH_CAKE\<rparr>)) = MORPH_CAKE
   \<and> state (update 2001 hitFrame (countdown0\<lparr>state := BLOW_OUT\<rparr>)) = GIFT_OPEN
   \<and> state (update 2000 hitFrame (countdown0\<lparr>state := BLOW_OUT\<rparr>)) = BLOW_OUT
   \<and> timeoutBranch 600000 (candlesLit0\<lparr>micActive := False\<rparr>) = candlesLit0\<lparr>micActive := False\<rparr>
   \<and> state (run sustainedBlow (candlesLit0\<lparr>micActive := False\<rparr>)) = CANDLES_LIT
   \<and> state (run sustainedBlow (candlesLit0\<lparr>micActive := False, state := GIFT_OPEN\<rparr>)) = GIFT_OPEN"
proof -
  have c: "state countdown0 = COUNTDOWN" "lastStateTimeRef countdown0 = 0"
    by (simp_all add: countdown0_def)
  have l: "state candlesLit0 = CANDLES_LIT"
    by (simp add: candlesLit0_def)
  from timed_states_advance [of countdown0 3001 hitFrame]
    timed_states_advance [of countdown0 3000 hitFrame]
  have 1: "state (update 3001 hitFrame countdown0) = MORPH_CAKE"
    "state (update 3000 hitFrame countdown0) = COUNTDOWN"
    by (simp_all add: c)
  from timed_states_advance [of "countdown0\<lparr>state := MORPH_CAKE\<rparr>" 4001 hitFrame]
    timed_states_advance [of "countdown0\<lparr>state := MORPH_CAKE\<rparr>" 4000 hitFrame]
  have 2: "state (update 4001 hitFrame (countdown0\<lparr>state := MORPH_CAKE\<rparr>)) = CANDLES_LIT"
    "state (update 4000 hitFrame (countdown0\<lparr>state := MORPH_CAKE\<rparr>)) = MORPH_CAKE"
    by (simp_all add: c)
  from timed_states_advance [of "countdown0\<lparr>state := BLOW_OUT\<rparr>" 2001 hitFrame]
    timed_states_advance [of "countdown0\<lparr>state := BLOW_OUT\<rparr>" 2000 hitFrame]
  have 3: "state (update 2001 hitFrame (countdown0\<lparr>state := BLOW_OUT\<rparr>)) = GIFT_OPEN"
    "state (update 2000 hitFrame (countdown0\<lparr>state := BLOW_OUT\<rparr>)) = BLOW_OUT"
    by (simp_all add: c)
  from timed_states_advance [of "candlesLit0\<lparr>micActive := False\<rparr>" 600000 hitFrame sustainedBlow]
  have 4: "timeoutBranch 600000 (candlesLit0\<lparr>micActive := False\<rparr>) = candlesLit0\<lparr>micActive := False\<rparr>"
    "state (run sustainedBlow (candlesLit0\<lparr>micActive := False\<rparr>)) = CANDLES_LIT"
    by (simp_all add: l)
  from timed_states_advance
    [of "candlesLit0\<lparr>micActive := False, state := GIFT_OPEN\<rparr>" 600000 hitFrame sustainedBlow]
  have 5: "state (run sustainedBlow (candlesLit0\<lparr>micActive := False, state := GIFT_OPEN\<rparr>)) = GIFT_OPEN"
    by simp
  from 1 2 3 4 5 show ?thesis by simp
qed

section \<open>Transitions\<close>

lemma state_timeoutBranch_gated:
  assumes "state m = LISTENING \<or> state m = CANDLES_LIT"
  shows "state (timeoutBranch now m) = state m"
  using assms by (auto simp: state_timeoutBranch)

text \<open>
  C2, as amended. A tick that changes the state sets the elapsed-time origin to now. If
  it is an audio trigger (from \<open>LISTENING\<close> or \<open>CANDLES_LIT\<close>), the run-length after the
  tick is 0 and the trigger time is now; the trigger does not write the progress, which
  keeps the value the first part of the tick left. If it is a timeout (from
  \<open>COUNTDOWN\<close>, \<open>MORPH_CAKE\<close> or \<open>BLOW_OUT\<close>), the progress is 0 and the run-length is set
  to 0 before the frame of the same tick is counted, so after the tick it is 1 when the
  microphone is active and the frame is a hit, and 0 otherwise.
\<close>

theorem transition_resets:
  assumes "state (update now f m) \<noteq> state m"
  shows "lastStateTimeRef (update now f m) = now
       \<and> (if state m = LISTENING \<or> state m = CANDLES_LIT then
            blowHitFramesRef (update now f m) = 0
            \<and> lastTriggerAtRef (update now f m) = now
            \<and> progress (update now f m) = progress (timeoutBranch now m)
          else
            state (timeoutBranch now m) \<noteq> state m
            \<and> progress (update now f m) = Num 0
            \<and> blowHitFramesRef (timeoutBranch now m) = 0
            \<and> blowHitFramesRef (update now f m)
                = (if analyserRef m \<and> micActive m \<and> isHit f then 1 else 0))"
proof (cases "state m = LISTENING \<or> state m = CANDLES_LIT")
  case True
  have s: "state (timeoutBranch now m) = state m"
    using True by (rule state_timeoutBranch_gated)
  from assms s have mic: "analyserRef m \<and> micActive m"
    by (auto simp: update_def Let_def split: if_splits)
  then have u: "update now f m = triggerGate (state m) now (hysteresis f (timeoutBranch now m))"
    by (simp add: update_def Let_def)
  from assms have "state (triggerGate (state m) now (hysteresis f (timeoutBranch now m)))
      \<noteq> state (hysteresis f (timeoutBranch now m))"
    by (simp add: u s)
  from triggerGate_fire [OF True this] True show ?thesis
    by (simp add: u)
next
  case False
  then have o: "state m \<noteq> LISTENING" "state m \<noteq> CANDLES_LIT" by simp_all
  have u: "update now f m =
     (if analyserRef m \<and> micActive m then hysteresis f (timeoutBranch now m)
      else timeoutBranch now m)"
    using o by (simp add: update_def Let_def triggerGate_other)
  from assms have t: "state (timeoutBranch now m) \<noteq> state m"
    by (simp add: state_update_other [OF o])
  then have "lastStateTimeRef (timeoutBranch now m) = now
      \<and> progress (timeoutBranch now m) = Num 0 \<and> blowHitFramesRef (timeoutBranch now m) = 0"
    by (auto simp: timeoutBranch_def Let_def split: if_splits)
  with t False show ?thesis
    by (simp add: u blowHitFramesRef_hysteresis)
qed

text \<open>
  A blow that completes the run-length in \<open>CANDLES_LIT\<close> at 1000 ms, and the timeout of
  \<open>COUNTDOWN\<close> at 3001 ms on a silent frame.
\<close>

theorem transition_resets_witness:
  "state (update 1000 hitFrame candlesHalf) \<noteq> state candlesHalf
   \<and> lastStateTimeRef (update 1000 hitFrame candlesHalf) = 1000
   \<and> blowHitFramesRef (update 1000 hitFrame candlesHalf) = 0
   \<and> lastTriggerAtRef (update 1000 hitFrame candlesHalf) = 1000
   \<and> state (update 3001 quietFrame countdown0) \<noteq> state countdown0
   \<and> lastStateTimeRef (update 3001 quietFrame countdown0) = 3001
   \<and> progress (update 3001 quietFrame countdown0) = Num 0
   \<and> blowHitFramesRef (update 3001 quietFrame countdown0) = 0"
proof -
  have a: "state (update 1000 hitFrame candlesHalf) \<noteq> state candlesHalf"
    by (simp add: candlesHalf_def update_def Let_def timeoutBranch_def triggerGate_def
        hysteresis_def isHit_hitFrame requiredFrames_def cooldownMs_def)
  have b: "state (update 3001 quietFrame countdown0) \<noteq> state countdown0"
    by (simp add: countdown0_def state_update_other state_timeoutBranch)
  have c: "state candlesHalf = CANDLES_LIT" "state countdown0 = COUNTDOWN"
    by (simp_all add: candlesHalf_def countdown0_def)
  from transition_resets [OF a] transition_resets [OF b] a b show ?thesis
    by (simp add: c not_isHit_quietFrame)
qed

text \<open>
  The claim as stated fails at both kinds of transition. The audio trigger from
  \<open>CANDLES_LIT\<close> with a progress of one half leaves the progress at one half in
  \<open>BLOW_OUT\<close>. The timeout of \<open>COUNTDOWN\<close> on a hit frame leaves the run-length at 1 in
  \<open>MORPH_CAKE\<close>.
\<close>

theorem transition_keeps_values:
  "state (update 1000 hitFrame candlesHalf) = BLOW_OUT
   \<and> progress candlesHalf = Num (1 / 2)
   \<and> progress (update 1000 hitFrame candlesHalf) = Num (1 / 2)
   \<and> state (update 3001 hitFrame countdown0) = MORPH_CAKE
   \<and> blowHitFramesRef (update 3001 hitFrame countdown0) = 1"
  by (simp add: candlesHalf_def countdown0_def update_def Let_def timeoutBranch_def
      triggerGate_def hysteresis_def isHit_hitFrame requiredFrames_def cooldownMs_def)

text \<open>
  C8. In a state other than \<open>LISTENING\<close> and \<open>CANDLES_LIT\<close> the audio signal never
  changes the state: the trigger gate returns the machine as it got it, and the state
  after the tick is the one the timeout branch left. \<open>GIFT_OPEN\<close> is terminal: no tick
  and no sequence of ticks leaves it, by timeout or by audio.
\<close>

theorem audio_ignored_elsewhere:
  "(state m \<noteq> LISTENING \<and> state m \<noteq> CANDLES_LIT \<longrightarrow>
      state (update now f m) = state (timeoutBranch now m)
      \<and> triggerGate (state m) now (hysteresis f (timeoutBranch now m))
          = hysteresis f (timeoutBranch now m))
   \<and> (state m = GIFT_OPEN \<longrightarrow>
      state (update now f m) = GIFT_OPEN \<and> state (run ticks m) = GIFT_OPEN)"
  by (auto simp: state_update_other triggerGate_other run_GIFT_OPEN timeoutBranch_untimed)

text \<open>
  A sustained blow during \<open>COUNTDOWN\<close> with the run-length already at 5, and during
  \<open>GIFT_OPEN\<close>.
\<close>

theorem audio_ignored_elsewhere_witness:
  "state (candlesHalf\<lparr>state := COUNTDOWN\<rparr>) \<noteq> LISTENING
   \<and> state (candlesHalf\<lparr>state := COUNTDOWN\<rparr>) \<noteq> CANDLES_LIT
   \<and> state (update 1000 hitFrame (candlesHalf\<lparr>state := COUNTDOWN\<rparr>)) = COUNTDOWN
   \<and> state (update 1000 hitFrame (candlesHalf\<lparr>state := GIFT_OPEN\<rparr>)) = GIFT_OPEN
   \<and> state (run sustainedBlow (candlesHalf\<lparr>state := GIFT_OPEN\<rparr>)) = GIFT_OPEN"
proof -
  have t: "state (timeoutBranch 1000 (candlesHalf\<lparr>state := COUNTDOWN\<rparr>)) = COUNTDOWN"
    by (simp add: state_timeoutBranch candlesHalf_def)
  from audio_ignored_elsewhere [of "candlesHalf\<lparr>state := COUNTDOWN\<rparr>" 1000 hitFrame]
  have a: "state (update 1000 hitFrame (candlesHalf\<lparr>state := COUNTDOWN\<rparr>)) = COUNTDOWN"
    by (simp add: t)
  have g: "state (candlesHalf\<lparr>state := GIFT_OPEN\<rparr>) = GIFT_OPEN"
    by simp
  from audio_ignored_elsewhere [of "candlesHalf\<lparr>state := GIFT_OPEN\<rparr>" 1000 hitFrame sustainedBlow] g
  have b: "state (update 1000 hitFrame (candlesHalf\<lparr>state := GIFT_OPEN\<rparr>)) = GIFT_OPEN"
    "state (run sustainedBlow (candlesHalf\<lparr>state := GIFT_OPEN\<rparr>)) = GIFT_OPEN"
    by blast+
  from a b show ?thesis by simp
qed

section \<open>Microphone failure\<close>

text \<open>
  C7. When the microphone cannot be acquired, \<open>initMic\<close> still enters \<open>LISTENING\<close>, with
  \<open>micActive\<close> false. From there every tick is the timeout branch alone (the audio block
  is skipped, and nothing in the tick can throw: \<open>update\<close> has a value at every input),
  and after any sequence of ticks the machine is still in \<open>LISTENING\<close> with \<open>micActive\<close>
  false: no audio frame advances it.
\<close>

theorem mic_failure_stays_listening:
  "state (initMic False m) = LISTENING
   \<and> \<not> micActive (initMic False m)
   \<and> state (run ticks (initMic False m)) = LISTENING
   \<and> \<not> micActive (run ticks (initMic False m))
   \<and> update now f (run ticks (initMic False m)) = timeoutBranch now (run ticks (initMic False m))"
proof -
  let ?m = "initMic False m"
  have a: "state ?m = LISTENING" and b: "\<not> micActive ?m" by (simp_all add: initMic_def)
  from run_no_mic [OF b, of ticks] a
  have c: "state (run ticks ?m) = LISTENING" and d: "\<not> micActive (run ticks ?m)" by simp_all
  from d have "update now f (run ticks ?m) = timeoutBranch now (run ticks ?m)"
    by (rule update_no_mic)
  with a b c d show ?thesis by simp
qed

text \<open>The start button pressed in \<open>IDLE\<close>, the capture refused, then a sustained blow.\<close>

theorem mic_failure_stays_listening_witness:
  "state (initMic False (listening0\<lparr>state := IDLE, micActive := False, analyserRef := False\<rparr>))
     = LISTENING
   \<and> state (run sustainedBlow
        (initMic False (listening0\<lparr>state := IDLE, micActive := False, analyserRef := False\<rparr>)))
     = LISTENING"
  using mic_failure_stays_listening
    [of "listening0\<lparr>state := IDLE, micActive := False, analyserRef := False\<rparr>" sustainedBlow]
  by simp

section \<open>The run-length counter\<close>

text \<open>
  Where the timeout branch does not run, the counter follows the frames: in
  \<open>CANDLES_LIT\<close> with an active microphone and a run-length of 0, the frames hit, hit,
  hit, miss, hit, hit, hit, hit give the run-lengths 1, 2, 3, 2, 3, 4, 5, 6 at the gate,
  the machine is still in \<open>CANDLES_LIT\<close> after the seventh tick, and the eighth
  triggers \<open>BLOW_OUT\<close> when the cooldown has passed.
\<close>

lemma candles_run_lengths:
  assumes "isHit H" "\<not> isHit M" "blowHitFramesRef m = 0"
    and "state m = CANDLES_LIT" "analyserRef m" "micActive m"
  shows "gateCounts [(t1, H), (t2, H), (t3, H), (t4, M), (t5, H), (t6, H), (t7, H), (t8, H)] m
      = [1, 2, 3, 2, 3, 4, 5, 6]"
    and "state (run [(t1, H), (t2, H), (t3, H), (t4, M), (t5, H), (t6, H), (t7, H)] m)
      = CANDLES_LIT"
    and "cooldownMs < t8 - lastTriggerAtRef m \<Longrightarrow>
      state (run [(t1, H), (t2, H), (t3, H), (t4, M), (t5, H), (t6, H), (t7, H), (t8, H)] m)
        = BLOW_OUT"
  using assms
  by (auto simp: blowHitFramesRef_hysteresis hysteresis_def update_def triggerGate_def Let_def
      timeoutBranch_untimed requiredFrames_def)

text \<open>
  C6. The claim: the run-length goes up by 1 on each hit frame and down by exactly 1,
  not below 0, on each miss frame, so that from 0 the frames hit, hit, hit, miss, hit,
  hit, hit, hit give the run-lengths 1, 2, 3, 2, 3, 4, 5, 6 and reach the threshold of 6
  on the eighth frame. The code, on these eight frames 16 ms apart in \<open>LISTENING\<close>
  with an active microphone and a run-length of 0: the timeout branch sets the
  run-length to 0 at every tick before the frame is counted, the run-lengths at the gate
  are 1, 1, 1, 0, 1, 1, 1, 1, the threshold is never reached and the machine is still in
  \<open>LISTENING\<close> after the eighth frame. The same ticks in \<open>CANDLES_LIT\<close> give the
  run-lengths of the claim and trigger \<open>BLOW_OUT\<close> on the eighth.
\<close>

theorem dropped_frame_run_lengths:
  "map (\<lambda>t. isHit (snd t)) droppedFrame = [True, True, True, False, True, True, True, True]
   \<and> blowHitFramesRef listening0 = 0
   \<and> gateCounts droppedFrame listening0 = [1, 1, 1, 0, 1, 1, 1, 1]
   \<and> map blowHitFramesRef
        [run (take 1 droppedFrame) listening0, run (take 2 droppedFrame) listening0,
         run (take 3 droppedFrame) listening0, run (take 4 droppedFrame) listening0,
         run (take 5 droppedFrame) listening0, run (take 6 droppedFrame) listening0,
         run (take 7 droppedFrame) listening0, run droppedFrame listening0]
       = [1, 1, 1, 0, 1, 1, 1, 1]
   \<and> state (run droppedFrame listening0) = LISTENING
   \<and> gateCounts droppedFrame candlesLit0 = [1, 2, 3, 2, 3, 4, 5, 6]
   \<and> state (run droppedFrame candlesLit0) = BLOW_OUT"
proof -
  have f: "map (\<lambda>t. isHit (snd t)) droppedFrame
      = [True, True, True, False, True, True, True, True]"
    by (simp add: droppedFrame_def isHit_hitFrame not_isHit_quietFrame)
  have l: "blowHitFramesRef listening0 = 0
      \<and> gateCounts droppedFrame listening0 = [1, 1, 1, 0, 1, 1, 1, 1]
      \<and> map blowHitFramesRef
          [run (take 1 droppedFrame) listening0, run (take 2 droppedFrame) listening0,
           run (take 3 droppedFrame) listening0, run (take 4 droppedFrame) listening0,
           run (take 5 droppedFrame) listening0, run (take 6 droppedFrame) listening0,
           run (take 7 droppedFrame) listening0, run droppedFrame listening0]
         = [1, 1, 1, 0, 1, 1, 1, 1]
      \<and> state (run droppedFrame listening0) = LISTENING"
    by (simp add: droppedFrame_def listening0_def update_listening hysteresis_def
        isHit_hitFrame not_isHit_quietFrame timeoutBranch_zero)
  have c: "blowHitFramesRef candlesLit0 = 0" "state candlesLit0 = CANDLES_LIT"
    "analyserRef candlesLit0" "micActive candlesLit0"
    "cooldownMs < 1112 - lastTriggerAtRef candlesLit0"
    by (simp_all add: candlesLit0_def cooldownMs_def)
  note k = candles_run_lengths [OF isHit_hitFrame not_isHit_quietFrame c(1-4)]
  have "gateCounts droppedFrame candlesLit0 = [1, 2, 3, 2, 3, 4, 5, 6]"
    unfolding droppedFrame_def by (rule k(1))
  moreover have "state (run droppedFrame candlesLit0) = BLOW_OUT"
    unfolding droppedFrame_def by (rule k(3) [OF c(5)])
  ultimately show ?thesis using f l by simp
qed

section \<open>The version in \<open>src/App.tsx\<close>\<close>

lemma reduce_add1_nonempty:
  assumes "xs \<noteq> []"
  shows "reduce_add1 xs = Inr (reduce_add 0 xs)"
  using assms by (cases xs) (simp_all add: reduce_add1_def reduce_add_def)

text \<open>
  C10. In the version of \<open>src/App.tsx\<close>, with an active microphone, one frame whose
  low-frequency mean or whose mean over all bins exceeds 55 takes \<open>LISTENING\<close> to
  \<open>COUNTDOWN\<close> and \<open>CANDLES_LIT\<close> to \<open>BLOW_OUT\<close> in the same tick, and sets the
  elapsed-time origin to now. Nothing else is asked: the state of this version has no
  run-length and no trigger time, and the result holds at every time \<open>now\<close> and from
  every machine in that state.
\<close>

theorem single_frame_trigger_App:
  assumes "analyserRef m" "micActive m" "15 \<le> length dataArray"
    and "55 < mean (take 15 dataArray) \<or> 55 < mean dataArray"
  shows "(state m = LISTENING \<longrightarrow>
            update_App now dataArray m
              = Inr ((timeoutBranch_App now m)\<lparr>state := COUNTDOWN, lastStateTimeRef := now\<rparr>))
       \<and> (state m = CANDLES_LIT \<longrightarrow>
            update_App now dataArray m
              = Inr ((timeoutBranch_App now m)\<lparr>state := BLOW_OUT, lastStateTimeRef := now\<rparr>))"
proof -
  from assms(3) have ne: "dataArray \<noteq> []" by auto
  from assms(3) have "lowFreqBins \<le> length dataArray" by (simp add: lowFreqBins_def)
  then have low: "lowFreqSum dataArray = Num (mean (take 15 dataArray))"
    using lowFreqSum_mean by (simp add: lowFreqBins_def)
  have tot: "js_div (Num (of_int (reduce_add 0 dataArray))) (Num (of_nat (length dataArray)))
      = Num (mean dataArray)"
    using totalAverage_mean [OF ne] by (simp add: totalAverage_def)
  have hit: "js_gt (lowFreqSum dataArray) blowThreshold
      \<or> js_gt (js_div (Num (of_int (reduce_add 0 dataArray))) (Num (of_nat (length dataArray))))
           blowThreshold"
    using assms(4) unfolding low tot by (simp add: blowThreshold_def)
  show ?thesis
    using assms(1,2) hit
    by (simp add: update_App_def Let_def reduce_add1_nonempty [OF ne])
qed

text \<open>
  One full-scale frame, 16 ms after \<open>LISTENING\<close> was entered, and the next one 16 ms
  after \<open>CANDLES_LIT\<close> was: each triggers at once.
\<close>

theorem single_frame_trigger_App_witness:
  "analyserRef appListening0 \<and> micActive appListening0 \<and> 15 \<le> length hitFrame
   \<and> 55 < mean hitFrame
   \<and> update_App 16 hitFrame appListening0
       = Inr (appListening0\<lparr>state := COUNTDOWN, lastStateTimeRef := 16\<rparr>)
   \<and> update_App 32 hitFrame (appListening0\<lparr>state := CANDLES_LIT, lastStateTimeRef := 16\<rparr>)
       = Inr (appListening0\<lparr>state := BLOW_OUT, lastStateTimeRef := 32\<rparr>)"
proof -
  have a: "analyserRef appListening0" "micActive appListening0"
    by (simp_all add: appListening0_def)
  have l: "15 \<le> length hitFrame"
    by (simp add: hitFrame_def)
  have m: "55 < mean hitFrame"
    by (simp add: hitFrame_def mean_def sum_list_replicate)
  then have h: "55 < mean (take 15 hitFrame) \<or> 55 < mean hitFrame" by simp
  have t1: "timeoutBranch_App 16 appListening0 = appListening0\<lparr>lastStateTimeRef := 16\<rparr>"
    by (simp add: timeoutBranch_App_def appListening0_def)
  have t2: "timeoutBranch_App 32 (appListening0\<lparr>state := CANDLES_LIT, lastStateTimeRef := 16\<rparr>)
      = appListening0\<lparr>state := CANDLES_LIT, lastStateTimeRef := 16\<rparr>"
    by (simp add: timeoutBranch_App_def appListening0_def)
  from single_frame_trigger_App [OF a l h, of 16]
  have 1: "update_App 16 hitFrame appListening0
       = Inr (appListening0\<lparr>state := COUNTDOWN, lastStateTimeRef := 16\<rparr>)"
    by (simp add: t1) (simp add: appListening0_def)
  from single_frame_trigger_App
    [of "appListening0\<lparr>state := CANDLES_LIT, lastStateTimeRef := 16\<rparr>" hitFrame 32, OF _ _ l h]
  have 2: "update_App 32 hitFrame (appListening0\<lparr>state := CANDLES_LIT, lastStateTimeRef := 16\<rparr>)
       = Inr (appListening0\<lparr>state := BLOW_OUT, lastStateTimeRef := 32\<rparr>)"
    by (simp add: t2 a)
  from a l m 1 2 show ?thesis by simp
qed

end
